theory Spec2Isabelle
  imports Main "HOL-Library.Word"
begin

section \<open>Errors and status values (channels.hpp, lines 36-92)\<close>

text \<open>
  \<open>enum class channel_error\<close>. A thrown \<open>channel_exception\<close> carries exactly one of
  these two values.
\<close>

datatype channel_error = illegal_write | invalid_size

text \<open>
  \<open>channel_exception::_error_messages\<close> (lines 45-48), the \<open>std::map\<close> from error to
  message in which \<open>what\<close> looks the error up.
\<close>

definition error_messages :: "channel_error \<rightharpoonup> string" where
  "error_messages =
     [illegal_write \<mapsto> ''illegal write on closed channel'',
      invalid_size \<mapsto> ''buffered channel cannot have size of zero'']"

text \<open>
  \<open>enum class read_status\<close> and \<open>enum class write_status\<close>. Both enumerations have
  members called \<open>success\<close> and \<open>timeout\<close>, and \<open>closed\<close> is also a channel state, so
  the members carry the name of their enumeration here.
\<close>

datatype read_status = read_success | read_timeout | read_closed

datatype write_status = write_success | write_timeout

section \<open>The single-slot channel (class \<open>channel\<close>, lines 99-406)\<close>

datatype channel_state = writable | readable | closing | closed

text \<open>
  The data members \<open>_value\<close> and \<open>_state\<close>. The mutex and the two condition variables
  carry no data; every member function below runs with the mutex held from its first
  statement, so a call is one atomic step on this record.
\<close>

record 'a channel =
  c_value :: 'a
  c_state :: channel_state

text \<open>
  The outcome of a call: what it returned or threw, the channel after the call and,
  for a read, the caller's output variable after the call. A thrown exception is the
  left summand.
\<close>

type_synonym 'a read_result = "(channel_error + read_status) \<times> 'a channel \<times> 'a"

type_synonym 'a write_result = "(channel_error + write_status) \<times> 'a channel"

text \<open>
  The three private wait functions. Each hands the predicate \<open>_state != hold_state\<close>
  to the condition variable. The untimed wait returns only once the predicate holds:
  in a state where it does not hold the calling thread stays blocked, which is the
  value \<open>None\<close>. The timed waits return the value of the predicate at the moment
  they stop waiting, \<open>False\<close> meaning that the time ran out with the predicate still
  false. The channel passed in is the channel as the call finds it at that moment.
\<close>

definition channel_wait :: "'a channel \<Rightarrow> channel_state \<Rightarrow> unit option" where
  "channel_wait ch hold_state = (if c_state ch \<noteq> hold_state then Some () else None)"

definition channel_wait_for :: "'a channel \<Rightarrow> channel_state \<Rightarrow> bool" where
  "channel_wait_for ch hold_state = (c_state ch \<noteq> hold_state)"

definition channel_wait_until :: "'a channel \<Rightarrow> channel_state \<Rightarrow> bool" where
  "channel_wait_until ch hold_state = (c_state ch \<noteq> hold_state)"

text \<open>\<open>channel::read_channel\<close> (lines 158-183): the switch over \<open>_state\<close>.\<close>

definition channel_read_channel :: "'a channel \<Rightarrow> 'a \<Rightarrow> 'a read_result" where
  "channel_read_channel ch val =
     (case c_state ch of
        readable \<Rightarrow> (Inr read_success, ch\<lparr>c_state := writable\<rparr>, c_value ch)
      | closing \<Rightarrow> (Inr read_success, ch\<lparr>c_state := closed\<rparr>, c_value ch)
      | closed \<Rightarrow> (Inr read_closed, ch, val)
      | writable \<Rightarrow> (Inl illegal_write, ch, val))"

text \<open>
  \<open>channel::write_channel\<close> (lines 185-208). Both branches of the
  \<open>is_move_assignable\<close> test leave the written value in \<open>_value\<close>; what a move does
  to the caller's own object is not part of the channel.
\<close>

definition channel_write_channel :: "'a channel \<Rightarrow> 'a \<Rightarrow> 'a write_result" where
  "channel_write_channel ch val =
     (case c_state ch of
        writable \<Rightarrow> (Inr write_success, ch\<lparr>c_value := val, c_state := readable\<rparr>)
      | _ \<Rightarrow> (Inl illegal_write, ch))"

text \<open>
  The constructor (lines 217-220) sets the state only. \<open>_value\<close> holds whatever
  default initialisation of \<open>Type\<close> gives, passed here as \<open>dflt\<close>.
\<close>

definition channel_new :: "'a \<Rightarrow> 'a channel" where
  "channel_new dflt = \<lparr>c_value = dflt, c_state = writable\<rparr>"

text \<open>\<open>channel::close\<close> (lines 248-262).\<close>

definition channel_close :: "'a channel \<Rightarrow> 'a channel" where
  "channel_close ch =
     (if c_state ch = readable then ch\<lparr>c_state := closing\<rparr>
      else if c_state ch = writable then ch\<lparr>c_state := closed\<rparr>
      else ch)"

text \<open>The public reads (lines 277-339).\<close>

definition channel_read :: "'a channel \<Rightarrow> 'a \<Rightarrow> 'a read_result option" where
  "channel_read ch val =
     (case channel_wait ch writable of
        None \<Rightarrow> None
      | Some _ \<Rightarrow> Some (channel_read_channel ch val))"

definition channel_read_for :: "'a channel \<Rightarrow> 'a \<Rightarrow> 'a read_result" where
  "channel_read_for ch val =
     (if channel_wait_for ch writable then channel_read_channel ch val
      else (Inr read_timeout, ch, val))"

definition channel_read_until :: "'a channel \<Rightarrow> 'a \<Rightarrow> 'a read_result" where
  "channel_read_until ch val =
     (if channel_wait_until ch writable then channel_read_channel ch val
      else (Inr read_timeout, ch, val))"

text \<open>
  The public writes (lines 341-405). The overloads taking \<open>const Type &\<close> and
  \<open>Type &&\<close> have the same body up to the move, so each pair is one function here.
\<close>

definition channel_write :: "'a channel \<Rightarrow> 'a \<Rightarrow> 'a write_result option" where
  "channel_write ch val =
     (case channel_wait ch readable of
        None \<Rightarrow> None
      | Some _ \<Rightarrow> Some (channel_write_channel ch val))"

definition channel_write_for :: "'a channel \<Rightarrow> 'a \<Rightarrow> 'a write_result" where
  "channel_write_for ch val =
     (if channel_wait_for ch readable then channel_write_channel ch val
      else (Inr write_timeout, ch))"

definition channel_write_until :: "'a channel \<Rightarrow> 'a \<Rightarrow> 'a write_result" where
  "channel_write_until ch val =
     (if channel_wait_until ch readable then channel_write_channel ch val
      else (Inr write_timeout, ch))"

section \<open>The buffered channel (class \<open>buffered_channel\<close>, lines 408-634)\<close>

text \<open>
  \<open>std::size_t\<close>, taken as the unsigned 64-bit integer it is on 64-bit targets:
  \<open>_count++\<close>, \<open>_count--\<close> and \<open>_read_position + 1\<close> wrap around.
\<close>

type_synonym size_t = "64 word"

text \<open>
  The data members \<open>_values\<close>, \<open>_read_position\<close>, \<open>_write_position\<close>, \<open>_count\<close> and
  \<open>_open\<close>. As for the single-slot channel, every member function holds the mutex
  while it touches them.
\<close>

record 'a buffered_channel =
  b_values :: "'a list"
  b_read_position :: size_t
  b_write_position :: size_t
  b_count :: size_t
  b_open :: bool

type_synonym 'a buffered_read_result =
  "(channel_error + read_status) \<times> 'a buffered_channel \<times> 'a"

type_synonym 'a buffered_write_result =
  "(channel_error + write_status) \<times> 'a buffered_channel"

text \<open>\<open>_values.size()\<close>, a \<open>size_t\<close>.\<close>

definition values_size :: "'a buffered_channel \<Rightarrow> size_t" where
  "values_size b = word_of_nat (length (b_values b))"

text \<open>\<open>is_readable\<close> and \<open>is_writable\<close> (lines 422-430).\<close>

definition is_readable :: "'a buffered_channel \<Rightarrow> bool" where
  "is_readable b = (\<not> b_open b \<or> b_count b > 0)"

definition is_writable :: "'a buffered_channel \<Rightarrow> bool" where
  "is_writable b = (\<not> b_open b \<or> b_count b < values_size b)"

text \<open>
  The private wait functions (lines 432-464) take the predicate to wait for, which
  the callers bind to \<open>is_readable\<close> or \<open>is_writable\<close> of this channel. They are
  modelled like those of the single-slot channel.
\<close>

definition buffered_channel_wait ::
  "'a buffered_channel \<Rightarrow> ('a buffered_channel \<Rightarrow> bool) \<Rightarrow> unit option" where
  "buffered_channel_wait b stop_waiting = (if stop_waiting b then Some () else None)"

definition buffered_channel_wait_for ::
  "'a buffered_channel \<Rightarrow> ('a buffered_channel \<Rightarrow> bool) \<Rightarrow> bool" where
  "buffered_channel_wait_for b stop_waiting = stop_waiting b"

definition buffered_channel_wait_until ::
  "'a buffered_channel \<Rightarrow> ('a buffered_channel \<Rightarrow> bool) \<Rightarrow> bool" where
  "buffered_channel_wait_until b stop_waiting = stop_waiting b"

text \<open>
  \<open>buffered_channel::read_channel\<close> (lines 466-484). The element read is
  \<open>_values[_read_position]\<close>; the cursor stays below the size of the vector in every
  state the constructor and the public operations produce (\<open>invar\<close> below), so the
  index is in range there.
\<close>

definition buffered_channel_read_channel ::
  "'a buffered_channel \<Rightarrow> 'a \<Rightarrow> 'a buffered_read_result" where
  "buffered_channel_read_channel b val =
     (if \<not> b_open b \<and> b_count b = 0 then (Inr read_closed, b, val)
      else
        (Inr read_success,
         b\<lparr>b_read_position := (b_read_position b + 1) mod values_size b,
           b_count := b_count b - 1\<rparr>,
         b_values b ! unat (b_read_position b)))"

text \<open>\<open>buffered_channel::write_channel\<close> (lines 486-510).\<close>

definition buffered_channel_write_channel ::
  "'a buffered_channel \<Rightarrow> 'a \<Rightarrow> 'a buffered_write_result" where
  "buffered_channel_write_channel b val =
     (if b_open b then
        (Inr write_success,
         b\<lparr>b_values := (b_values b)[unat (b_write_position b) := val],
           b_count := b_count b + 1,
           b_write_position := (b_write_position b + 1) mod values_size b\<rparr>)
      else (Inl illegal_write, b))"

text \<open>
  What the constructor can throw: a \<open>channel_exception\<close> of its own, or one of the two
  exceptions of \<open>std::vector::resize\<close>.
\<close>

datatype construction_error = channel_exception channel_error | length_error | bad_alloc

text \<open>
  \<open>std::vector<Type>::resize\<close> on the empty vector, as the C++ standard library
  specifies it: a request beyond \<open>max_size()\<close> throws \<open>std::length_error\<close>, a request
  the allocator cannot serve throws \<open>std::bad_alloc\<close>, and otherwise the vector holds
  the requested number of default values of \<open>Type\<close> (passed as \<open>dflt\<close>). The library
  and the machine fix \<open>max_size()\<close> and the answer of the allocator; they are the
  parameters \<open>max_size\<close> and \<open>allocated\<close>.
\<close>

definition vector_resize :: "size_t \<Rightarrow> bool \<Rightarrow> size_t \<Rightarrow> 'a \<Rightarrow> construction_error + 'a list" where
  "vector_resize max_size allocated sz dflt =
     (if max_size < sz then Inl length_error
      else if \<not> allocated then Inl bad_alloc
      else Inr (replicate (unat sz) dflt))"

text \<open>
  The constructor (lines 513-520): the test for size zero, then \<open>_values.resize(size)\<close>
  (\<open>size\<close> is \<open>sz\<close> here). An exception leaves no object behind, so the result is
  either the error or the new channel.
\<close>

definition buffered_channel_new ::
  "size_t \<Rightarrow> bool \<Rightarrow> size_t \<Rightarrow> 'a \<Rightarrow> construction_error + 'a buffered_channel" where
  "buffered_channel_new max_size allocated sz dflt =
     (if sz = 0 then Inl (channel_exception invalid_size)
      else
        (case vector_resize max_size allocated sz dflt of
           Inl e \<Rightarrow> Inl e
         | Inr vs \<Rightarrow>
             Inr \<lparr>b_values = vs, b_read_position = 0, b_write_position = 0,
                  b_count = 0, b_open = True\<rparr>))"

text \<open>\<open>buffered_channel::close\<close> (lines 527-534).\<close>

definition buffered_channel_close :: "'a buffered_channel \<Rightarrow> 'a buffered_channel" where
  "buffered_channel_close b = b\<lparr>b_open := False\<rparr>"

text \<open>The public reads (lines 536-567).\<close>

definition buffered_channel_read ::
  "'a buffered_channel \<Rightarrow> 'a \<Rightarrow> 'a buffered_read_result option" where
  "buffered_channel_read b val =
     (case buffered_channel_wait b is_readable of
        None \<Rightarrow> None
      | Some _ \<Rightarrow> Some (buffered_channel_read_channel b val))"

definition buffered_channel_read_for ::
  "'a buffered_channel \<Rightarrow> 'a \<Rightarrow> 'a buffered_read_result" where
  "buffered_channel_read_for b val =
     (if buffered_channel_wait_for b is_readable then buffered_channel_read_channel b val
      else (Inr read_timeout, b, val))"

definition buffered_channel_read_until ::
  "'a buffered_channel \<Rightarrow> 'a \<Rightarrow> 'a buffered_read_result" where
  "buffered_channel_read_until b val =
     (if buffered_channel_wait_until b is_readable then buffered_channel_read_channel b val
      else (Inr read_timeout, b, val))"

text \<open>The public writes (lines 569-633), one function for each pair of overloads.\<close>

definition buffered_channel_write ::
  "'a buffered_channel \<Rightarrow> 'a \<Rightarrow> 'a buffered_write_result option" where
  "buffered_channel_write b val =
     (case buffered_channel_wait b is_writable of
        None \<Rightarrow> None
      | Some _ \<Rightarrow> Some (buffered_channel_write_channel b val))"

definition buffered_channel_write_for ::
  "'a buffered_channel \<Rightarrow> 'a \<Rightarrow> 'a buffered_write_result" where
  "buffered_channel_write_for b val =
     (if buffered_channel_wait_for b is_writable then buffered_channel_write_channel b val
      else (Inr write_timeout, b))"

definition buffered_channel_write_until ::
  "'a buffered_channel \<Rightarrow> 'a \<Rightarrow> 'a buffered_write_result" where
  "buffered_channel_write_until b val =
     (if buffered_channel_wait_until b is_writable then buffered_channel_write_channel b val
      else (Inr write_timeout, b))"

section \<open>Sequences of calls\<close>

text \<open>
  The public interface of both classes: the calls a client can make. A write carries
  the value written. A read stores into the client's output variable, which the
  client state carries next to the channel.
\<close>

datatype 'a call =
    call_read | call_read_for | call_read_until
  | call_write 'a | call_write_for 'a | call_write_until 'a
  | call_close

fun is_read :: "'a call \<Rightarrow> bool" where
  "is_read call_read = True"
| "is_read call_read_for = True"
| "is_read call_read_until = True"
| "is_read _ = False"

fun is_write :: "'a call \<Rightarrow> bool" where
  "is_write (call_write _) = True"
| "is_write (call_write_for _) = True"
| "is_write (call_write_until _) = True"
| "is_write _ = False"

text \<open>What the client sees of a call that came back: an exception or a status.\<close>

datatype outcome =
    threw channel_error
  | read_returned read_status
  | write_returned write_status
  | close_returned

definition read_outcome :: "channel_error + read_status \<Rightarrow> outcome" where
  "read_outcome r = (case r of Inl e \<Rightarrow> threw e | Inr st \<Rightarrow> read_returned st)"

definition write_outcome :: "channel_error + write_status \<Rightarrow> outcome" where
  "write_outcome r = (case r of Inl e \<Rightarrow> threw e | Inr st \<Rightarrow> write_returned st)"

text \<open>
  One call on a single-slot channel. \<open>None\<close>: the call blocks in this state. An
  exception is caught by the client, which goes on with the channel as the throwing
  call left it.
\<close>

fun channel_call :: "'a call \<Rightarrow> 'a channel \<times> 'a \<Rightarrow> (outcome \<times> 'a channel \<times> 'a) option" where
  "channel_call call_read (ch, out) =
     (case channel_read ch out of
        None \<Rightarrow> None
      | Some (r, ch', out') \<Rightarrow> Some (read_outcome r, ch', out'))"
| "channel_call call_read_for (ch, out) =
     (case channel_read_for ch out of (r, ch', out') \<Rightarrow> Some (read_outcome r, ch', out'))"
| "channel_call call_read_until (ch, out) =
     (case channel_read_until ch out of (r, ch', out') \<Rightarrow> Some (read_outcome r, ch', out'))"
| "channel_call (call_write v) (ch, out) =
     (case channel_write ch v of
        None \<Rightarrow> None
      | Some (r, ch') \<Rightarrow> Some (write_outcome r, ch', out))"
| "channel_call (call_write_for v) (ch, out) =
     (case channel_write_for ch v of (r, ch') \<Rightarrow> Some (write_outcome r, ch', out))"
| "channel_call (call_write_until v) (ch, out) =
     (case channel_write_until ch v of (r, ch') \<Rightarrow> Some (write_outcome r, ch', out))"
| "channel_call call_close (ch, out) = Some (close_returned, channel_close ch, out)"

text \<open>One call on a buffered channel.\<close>

fun buffered_channel_call ::
  "'a call \<Rightarrow> 'a buffered_channel \<times> 'a \<Rightarrow> (outcome \<times> 'a buffered_channel \<times> 'a) option" where
  "buffered_channel_call call_read (b, out) =
     (case buffered_channel_read b out of
        None \<Rightarrow> None
      | Some (r, b', out') \<Rightarrow> Some (read_outcome r, b', out'))"
| "buffered_channel_call call_read_for (b, out) =
     (case buffered_channel_read_for b out of (r, b', out') \<Rightarrow> Some (read_outcome r, b', out'))"
| "buffered_channel_call call_read_until (b, out) =
     (case buffered_channel_read_until b out of (r, b', out') \<Rightarrow> Some (read_outcome r, b', out'))"
| "buffered_channel_call (call_write v) (b, out) =
     (case buffered_channel_write b v of
        None \<Rightarrow> None
      | Some (r, b') \<Rightarrow> Some (write_outcome r, b', out))"
| "buffered_channel_call (call_write_for v) (b, out) =
     (case buffered_channel_write_for b v of (r, b') \<Rightarrow> Some (write_outcome r, b', out))"
| "buffered_channel_call (call_write_until v) (b, out) =
     (case buffered_channel_write_until b v of (r, b') \<Rightarrow> Some (write_outcome r, b', out))"
| "buffered_channel_call call_close (b, out) = Some (close_returned, buffered_channel_close b, out)"

text \<open>
  A sequence of calls, each made once the one before has come back. The result is the
  list of events (the call, its outcome, the output variable after it) and the final
  state, or \<open>None\<close> if some call of the sequence blocks.
\<close>

type_synonym 'a event = "'a call \<times> outcome \<times> 'a"

fun run ::
  "('a call \<Rightarrow> 's \<times> 'a \<Rightarrow> (outcome \<times> 's \<times> 'a) option) \<Rightarrow> 'a call list \<Rightarrow> 's \<times> 'a \<Rightarrow>
   ('a event list \<times> 's \<times> 'a) option" where
  "run step [] s = Some ([], s)"
| "run step (c # cs) s =
     (case step c s of
        None \<Rightarrow> None
      | Some (oc, s') \<Rightarrow>
          (case run step cs s' of
             None \<Rightarrow> None
           | Some (es, s'') \<Rightarrow> Some ((c, oc, snd s') # es, s'')))"

text \<open>The values written, and the values delivered by reads, in the order of the events.\<close>

fun written_of :: "'a event \<Rightarrow> 'a list" where
  "written_of (call_write v, write_returned write_success, _) = [v]"
| "written_of (call_write_for v, write_returned write_success, _) = [v]"
| "written_of (call_write_until v, write_returned write_success, _) = [v]"
| "written_of _ = []"

fun delivered_of :: "'a event \<Rightarrow> 'a list" where
  "delivered_of (call_read, read_returned read_success, out) = [out]"
| "delivered_of (call_read_for, read_returned read_success, out) = [out]"
| "delivered_of (call_read_until, read_returned read_success, out) = [out]"
| "delivered_of _ = []"

definition written :: "'a event list \<Rightarrow> 'a list" where
  "written es = concat (map written_of es)"

definition delivered :: "'a event list \<Rightarrow> 'a list" where
  "delivered es = concat (map delivered_of es)"

text \<open>
  The pending values of a buffered channel, oldest first: the \<open>_count\<close> elements of
  the ring from the read cursor on.
\<close>

definition pending :: "'a buffered_channel \<Rightarrow> 'a list" where
  "pending b =
     map (\<lambda>i. b_values b ! ((unat (b_read_position b) + i) mod length (b_values b)))
       [0..<unat (b_count b)]"

text \<open>
  The representation invariant of a buffered channel of capacity \<open>n\<close>: the vector
  never changes size, both cursors stay inside it, the count is at most the capacity
  and the write cursor is the read cursor advanced by the count.
\<close>

definition invar :: "nat \<Rightarrow> 'a buffered_channel \<Rightarrow> bool" where
  "invar n b =
     (length (b_values b) = n \<and> 0 < n \<and> n < 2 ^ 64 \<and>
      unat (b_read_position b) < n \<and> unat (b_write_position b) < n \<and>
      unat (b_count b) \<le> n \<and>
      unat (b_write_position b) = (unat (b_read_position b) + unat (b_count b)) mod n)"

section \<open>Unfolding the member functions\<close>

lemmas channel_defs =
  channel_wait_def channel_wait_for_def channel_wait_until_def
  channel_read_channel_def channel_write_channel_def channel_close_def
  channel_read_def channel_read_for_def channel_read_until_def
  channel_write_def channel_write_for_def channel_write_until_def

lemmas buffered_channel_defs =
  buffered_channel_wait_def buffered_channel_wait_for_def buffered_channel_wait_until_def
  buffered_channel_read_channel_def buffered_channel_write_channel_def buffered_channel_close_def
  buffered_channel_read_def buffered_channel_read_for_def buffered_channel_read_until_def
  buffered_channel_write_def buffered_channel_write_for_def buffered_channel_write_until_def
  is_readable_def is_writable_def

text \<open>The public member functions alone, leaving the internal read and write steps folded.\<close>

lemmas buffered_public_defs =
  buffered_channel_wait_def buffered_channel_wait_for_def buffered_channel_wait_until_def
  buffered_channel_read_def buffered_channel_read_for_def buffered_channel_read_until_def
  buffered_channel_write_def buffered_channel_write_for_def buffered_channel_write_until_def

section \<open>The single-slot channel: closing\<close>

text \<open>On a closed channel every call comes back at once and changes nothing.\<close>

lemma channel_call_closed:
  "c_state ch = closed \<Longrightarrow>
   channel_call c (ch, out) =
     Some (if is_read c then read_returned read_closed
           else if is_write c then threw illegal_write else close_returned, ch, out)"
  by (cases c) (simp_all add: channel_defs read_outcome_def write_outcome_def)

lemma run_channel_closed:
  "c_state ch = closed \<Longrightarrow>
   \<exists>es. run channel_call cs (ch, out) = Some (es, ch, out) \<and>
        (\<forall>(c, oc, v) \<in> set es. is_read c \<longrightarrow> oc = read_returned read_closed)"
proof (induction cs)
  case Nil
  then show ?case by simp
next
  case (Cons c cs)
  then obtain es where es: "run channel_call cs (ch, out) = Some (es, ch, out)"
    "\<forall>(c, oc, v) \<in> set es. is_read c \<longrightarrow> oc = read_returned read_closed" by blast
  show ?case using es channel_call_closed [OF Cons.prems, of c out]
    by simp
qed

text \<open>
  Claim C1. On a single-slot channel, once \<open>write(v)\<close> (or a timed write of \<open>v\<close>) has
  succeeded and \<open>close()\<close> has been called, the channel is in state \<open>closing\<close>; the next read returns \<open>success\<close>,
  delivers \<open>v\<close> and leaves the channel \<open>closed\<close>, be it \<open>read\<close>, \<open>read_for\<close> or
  \<open>read_until\<close>. From then on every sequence of calls
  runs to its end without blocking and without changing the channel or the output
  variable, and every read in it returns \<open>closed\<close>.
\<close>

theorem close_after_write_delivers:
  assumes "channel_write ch v = Some (Inr write_success, ch1) \<or>
           channel_write_for ch v = (Inr write_success, ch1) \<or>
           channel_write_until ch v = (Inr write_success, ch1)"
  shows "c_state (channel_close ch1) = closing \<and>
         channel_read (channel_close ch1) out = Some (Inr read_success, ch1\<lparr>c_state := closed\<rparr>, v) \<and>
         channel_read_for (channel_close ch1) out = (Inr read_success, ch1\<lparr>c_state := closed\<rparr>, v) \<and>
         channel_read_until (channel_close ch1) out = (Inr read_success, ch1\<lparr>c_state := closed\<rparr>, v) \<and>
         (\<forall>cs out'. \<exists>es.
            run channel_call cs (ch1\<lparr>c_state := closed\<rparr>, out') =
              Some (es, ch1\<lparr>c_state := closed\<rparr>, out') \<and>
            (\<forall>(c, oc, x) \<in> set es. is_read c \<longrightarrow> oc = read_returned read_closed))"
proof -
  from assms have ch1: "c_state ch1 = readable" "c_value ch1 = v"
    by (auto simp: channel_defs split: if_splits channel_state.splits)
  have "\<exists>es. run channel_call cs (ch1\<lparr>c_state := closed\<rparr>, out') =
              Some (es, ch1\<lparr>c_state := closed\<rparr>, out') \<and>
            (\<forall>(c, oc, x) \<in> set es. is_read c \<longrightarrow> oc = read_returned read_closed)" for cs out'
    by (rule run_channel_closed) simp
  with ch1 show ?thesis by (simp add: channel_defs)
qed

theorem close_after_write_delivers_witness:
  "channel_write (channel_new (0::nat)) 5 =
     Some (Inr write_success, \<lparr>c_value = 5, c_state = readable\<rparr>) \<and>
   channel_read (channel_close \<lparr>c_value = 5::nat, c_state = readable\<rparr>) 0 =
     Some (Inr read_success, \<lparr>c_value = 5, c_state = closed\<rparr>, 5) \<and>
   channel_read_for (channel_close \<lparr>c_value = 5::nat, c_state = readable\<rparr>) 0 =
     (Inr read_success, \<lparr>c_value = 5, c_state = closed\<rparr>, 5) \<and>
   channel_read_until (channel_close \<lparr>c_value = 5::nat, c_state = readable\<rparr>) 0 =
     (Inr read_success, \<lparr>c_value = 5, c_state = closed\<rparr>, 5) \<and>
   run channel_call [call_read, call_read_for] (\<lparr>c_value = 5::nat, c_state = closed\<rparr>, 5) =
     Some ([(call_read, read_returned read_closed, 5), (call_read_for, read_returned read_closed, 5)],
           \<lparr>c_value = 5, c_state = closed\<rparr>, 5)"
proof -
  have w: "channel_write (channel_new (0::nat)) 5 =
     Some (Inr write_success, \<lparr>c_value = 5, c_state = readable\<rparr>)"
    by (simp add: channel_defs channel_new_def)
  show ?thesis using w close_after_write_delivers [OF disjI1 [OF w], of 0]
    by (simp add: channel_defs read_outcome_def)
qed

text \<open>
  Claim C7. On a single-slot channel with no pending value (state \<open>writable\<close>),
  \<open>close()\<close> leaves the state \<open>closed\<close>. The wait of a following read is satisfied at
  once, so the read does not block; it returns \<open>closed\<close> and stores nothing into the
  output variable. The timed reads do the same.
\<close>

theorem close_empty_then_read_closed:
  assumes "c_state ch = writable"
  shows "c_state (channel_close ch) = closed \<and>
         channel_wait (channel_close ch) writable = Some () \<and>
         channel_read (channel_close ch) out = Some (Inr read_closed, channel_close ch, out) \<and>
         channel_read_for (channel_close ch) out = (Inr read_closed, channel_close ch, out) \<and>
         channel_read_until (channel_close ch) out = (Inr read_closed, channel_close ch, out)"
  using assms by (simp add: channel_defs)

theorem close_empty_then_read_closed_witness:
  "c_state (channel_new (0::nat)) = writable \<and>
   channel_read (channel_close (channel_new (0::nat))) (7::nat) =
     Some (Inr read_closed, \<lparr>c_value = 0, c_state = closed\<rparr>, 7)"
  using close_empty_then_read_closed [of "channel_new (0::nat)" "7::nat"]
  by (simp add: channel_new_def channel_close_def)

section \<open>The single-slot channel: the state machine\<close>

lemma channel_call_state:
  "channel_call c (ch, out) = Some (oc, ch', out') \<Longrightarrow>
     c_state ch' = c_state ch \<or>
     (c_state ch = writable \<and> c_state ch' = readable \<and> is_write c) \<or>
     (c_state ch = readable \<and> c_state ch' = writable \<and> is_read c) \<or>
     (c_state ch = writable \<and> c_state ch' = closed \<and> c = call_close) \<or>
     (c_state ch = readable \<and> c_state ch' = closing \<and> c = call_close) \<or>
     (c_state ch = closing \<and> c_state ch' = closed \<and> is_read c)"
  by (cases c; cases "c_state ch") (auto simp: channel_defs)

text \<open>
  Claim C3. Whatever state a single-slot channel is in (so in particular in every
  state reached from the initial \<open>writable\<close> one), a call that comes back either leaves
  the state as it was or makes one of five moves: \<open>writable\<close> to \<open>readable\<close> by a write,
  \<open>readable\<close> to \<open>writable\<close> by a read, \<open>writable\<close> to \<open>closed\<close> by close, \<open>readable\<close>
  to \<open>closing\<close> by close, \<open>closing\<close> to \<open>closed\<close> by a read. In state \<open>closed\<close> every
  call, and every sequence of calls, comes back with the channel unchanged.
\<close>

theorem channel_transitions:
  "(channel_call c (ch, out) = Some (oc, ch', out') \<longrightarrow>
     c_state ch' = c_state ch \<or>
     (c_state ch = writable \<and> c_state ch' = readable \<and> is_write c) \<or>
     (c_state ch = readable \<and> c_state ch' = writable \<and> is_read c) \<or>
     (c_state ch = writable \<and> c_state ch' = closed \<and> c = call_close) \<or>
     (c_state ch = readable \<and> c_state ch' = closing \<and> c = call_close) \<or>
     (c_state ch = closing \<and> c_state ch' = closed \<and> is_read c)) \<and>
   (c_state ch = closed \<longrightarrow>
     (\<exists>oc. channel_call c (ch, out) = Some (oc, ch, out)) \<and>
     (\<exists>es. run channel_call cs (ch, out) = Some (es, ch, out)))"
  using channel_call_state [of c ch out oc ch' out']
    channel_call_closed [of ch c out] run_channel_closed [of ch cs out]
  by blast

theorem channel_transitions_witness:
  "channel_call (call_write (3::nat)) (channel_new 0, 0) =
     Some (write_returned write_success, \<lparr>c_value = 3, c_state = readable\<rparr>, 0) \<and>
   c_state (channel_new (0::nat)) = writable \<and>
   c_state \<lparr>c_value = 3::nat, c_state = closed\<rparr> = closed \<and>
   channel_call call_read (\<lparr>c_value = 3::nat, c_state = closed\<rparr>, 0) =
     Some (read_returned read_closed, \<lparr>c_value = 3, c_state = closed\<rparr>, 0)"
  using channel_transitions [of "call_write (3::nat)" "channel_new 0" 0
      "write_returned write_success" "\<lparr>c_value = 3, c_state = readable\<rparr>" 0 "[]"]
    channel_transitions [of call_read "\<lparr>c_value = 3::nat, c_state = closed\<rparr>" 0
      "read_returned read_closed" "\<lparr>c_value = 3::nat, c_state = closed\<rparr>" 0 "[]"]
  by (simp add: channel_defs channel_new_def read_outcome_def write_outcome_def)

section \<open>Errors and time-outs on both channels\<close>

text \<open>
  Claim C4. A write on a closed channel throws \<open>illegal_write\<close> instead of returning a
  status, and the channel after the call is the channel before it. For the single-slot
  channel closed means state \<open>closing\<close> or \<open>closed\<close>; for the buffered channel it
  means \<open>_open\<close> is false, whatever the count. This holds for \<open>write\<close>, \<open>write_for\<close>
  and \<open>write_until\<close>.
\<close>

theorem write_on_closed_raises:
  "(c_state ch = closing \<or> c_state ch = closed \<longrightarrow>
      channel_write ch v = Some (Inl illegal_write, ch) \<and>
      channel_write_for ch v = (Inl illegal_write, ch) \<and>
      channel_write_until ch v = (Inl illegal_write, ch)) \<and>
   (\<not> b_open b \<longrightarrow>
      buffered_channel_write b v = Some (Inl illegal_write, b) \<and>
      buffered_channel_write_for b v = (Inl illegal_write, b) \<and>
      buffered_channel_write_until b v = (Inl illegal_write, b))"
  by (auto simp: channel_defs buffered_channel_defs)

theorem write_on_closed_raises_witness:
  "c_state \<lparr>c_value = 1::nat, c_state = closing\<rparr> = closing \<and>
   channel_write \<lparr>c_value = 1::nat, c_state = closing\<rparr> 2 =
     Some (Inl illegal_write, \<lparr>c_value = 1, c_state = closing\<rparr>) \<and>
   \<not> b_open \<lparr>b_values = [1::nat, 0], b_read_position = 0, b_write_position = 1,
              b_count = 1, b_open = False\<rparr> \<and>
   buffered_channel_write
     \<lparr>b_values = [1::nat, 0], b_read_position = 0, b_write_position = 1,
      b_count = 1, b_open = False\<rparr> 2 =
     Some (Inl illegal_write,
       \<lparr>b_values = [1, 0], b_read_position = 0, b_write_position = 1,
        b_count = 1, b_open = False\<rparr>)"
  using write_on_closed_raises [of "\<lparr>c_value = 1::nat, c_state = closing\<rparr>" 2
      "\<lparr>b_values = [1::nat, 0], b_read_position = 0, b_write_position = 1,
        b_count = 1, b_open = False\<rparr>"]
  by simp

text \<open>
  Claim C6. On both channels, a \<open>read_for\<close>, \<open>read_until\<close>, \<open>write_for\<close> or \<open>write_until\<close>
  whose wait runs out (the timed wait returns false) returns \<open>timeout\<close>, and the
  channel and the output variable after the call are those before it: state and slot
  of the single-slot channel, vector, cursors, count and open flag of the buffered
  one. Conversely a timed call that returns \<open>timeout\<close> has changed nothing, so the
  same call can be made again on the same channel.
\<close>

theorem timeout_leaves_state:
  "(\<not> channel_wait_for ch writable \<longrightarrow> channel_read_for ch out = (Inr read_timeout, ch, out)) \<and>
   (\<not> channel_wait_until ch writable \<longrightarrow> channel_read_until ch out = (Inr read_timeout, ch, out)) \<and>
   (\<not> channel_wait_for ch readable \<longrightarrow> channel_write_for ch v = (Inr write_timeout, ch)) \<and>
   (\<not> channel_wait_until ch readable \<longrightarrow> channel_write_until ch v = (Inr write_timeout, ch)) \<and>
   (\<not> buffered_channel_wait_for b is_readable \<longrightarrow>
      buffered_channel_read_for b out = (Inr read_timeout, b, out)) \<and>
   (\<not> buffered_channel_wait_until b is_readable \<longrightarrow>
      buffered_channel_read_until b out = (Inr read_timeout, b, out)) \<and>
   (\<not> buffered_channel_wait_for b is_writable \<longrightarrow>
      buffered_channel_write_for b v = (Inr write_timeout, b)) \<and>
   (\<not> buffered_channel_wait_until b is_writable \<longrightarrow>
      buffered_channel_write_until b v = (Inr write_timeout, b)) \<and>
   (channel_read_for ch out = (Inr read_timeout, ch', out') \<longrightarrow> ch' = ch \<and> out' = out) \<and>
   (channel_read_until ch out = (Inr read_timeout, ch', out') \<longrightarrow> ch' = ch \<and> out' = out) \<and>
   (channel_write_for ch v = (Inr write_timeout, ch') \<longrightarrow> ch' = ch) \<and>
   (channel_write_until ch v = (Inr write_timeout, ch') \<longrightarrow> ch' = ch) \<and>
   (buffered_channel_read_for b out = (Inr read_timeout, b', out') \<longrightarrow> b' = b \<and> out' = out) \<and>
   (buffered_channel_read_until b out = (Inr read_timeout, b', out') \<longrightarrow> b' = b \<and> out' = out) \<and>
   (buffered_channel_write_for b v = (Inr write_timeout, b') \<longrightarrow> b' = b) \<and>
   (buffered_channel_write_until b v = (Inr write_timeout, b') \<longrightarrow> b' = b)"
  by (auto simp: channel_defs buffered_channel_defs split: channel_state.splits if_splits)

theorem timeout_leaves_state_witness:
  "\<not> channel_wait_for (channel_new (0::nat)) writable \<and>
   channel_read_for (channel_new (0::nat)) 9 = (Inr read_timeout, channel_new 0, 9) \<and>
   \<not> buffered_channel_wait_for
       \<lparr>b_values = [4::nat], b_read_position = 0, b_write_position = 0,
        b_count = 1, b_open = True\<rparr> is_writable \<and>
   buffered_channel_write_for
       \<lparr>b_values = [4::nat], b_read_position = 0, b_write_position = 0,
        b_count = 1, b_open = True\<rparr> 6 =
     (Inr write_timeout,
       \<lparr>b_values = [4], b_read_position = 0, b_write_position = 0,
        b_count = 1, b_open = True\<rparr>)"
  using timeout_leaves_state [of "channel_new (0::nat)" 9 6
      "\<lparr>b_values = [4::nat], b_read_position = 0, b_write_position = 0,
        b_count = 1, b_open = True\<rparr>" "channel_new 0" 9
      "\<lparr>b_values = [4::nat], b_read_position = 0, b_write_position = 0,
        b_count = 1, b_open = True\<rparr>"]
  by (simp add: channel_new_def channel_wait_for_def buffered_channel_wait_for_def
      is_writable_def values_size_def)

text \<open>
  Claim C9. When \<open>channel::read_channel\<close> runs in state \<open>writable\<close> it throws
  \<open>illegal_write\<close>, the very error that \<open>write_channel\<close> throws on a closed channel
  (single-slot or buffered), whose entry in the message table is "illegal write on
  closed channel".
  \<open>channel_error\<close> has no other member than \<open>illegal_write\<close> and \<open>invalid_size\<close>, so
  there is no separate illegal-state error.
\<close>

theorem read_channel_writable_raises:
  "(c_state ch = writable \<longrightarrow> channel_read_channel ch out = (Inl illegal_write, ch, out)) \<and>
   (c_state ch2 = closing \<or> c_state ch2 = closed \<longrightarrow>
      channel_write_channel ch2 v = (Inl illegal_write, ch2)) \<and>
   (\<not> b_open b \<longrightarrow> buffered_channel_write_channel b v = (Inl illegal_write, b)) \<and>
   error_messages illegal_write = Some ''illegal write on closed channel'' \<and>
   (\<forall>e. e = illegal_write \<or> e = invalid_size)"
proof -
  have "e = illegal_write \<or> e = invalid_size" for e by (cases e) simp_all
  then show ?thesis
    by (auto simp: channel_defs buffered_channel_defs error_messages_def)
qed

theorem read_channel_writable_raises_witness:
  "c_state (channel_new (0::nat)) = writable \<and>
   channel_read_channel (channel_new (0::nat)) 8 = (Inl illegal_write, channel_new 0, 8) \<and>
   c_state \<lparr>c_value = 0::nat, c_state = closed\<rparr> = closed \<and>
   channel_write_channel \<lparr>c_value = 0::nat, c_state = closed\<rparr> 2 =
     (Inl illegal_write, \<lparr>c_value = 0, c_state = closed\<rparr>) \<and>
   error_messages illegal_write = Some ''illegal write on closed channel''"
  using read_channel_writable_raises [of "channel_new (0::nat)" 8
      "\<lparr>c_value = 0::nat, c_state = closed\<rparr>" 2
      "\<lparr>b_values = [4::nat], b_read_position = 0, b_write_position = 0,
        b_count = 0, b_open = False\<rparr>"]
  by (simp add: channel_new_def)

text \<open>
  Claim C10. On both channels a read that returns \<open>closed\<close> (the internal read step,
  \<open>read\<close>, \<open>read_for\<close> or \<open>read_until\<close>) has changed neither the channel nor the
  output variable: the single-slot channel was and stays in state \<open>closed\<close>, the
  buffered channel was and stays closed with count 0 and the same cursors and vector.
  Reading again gives \<open>closed\<close> again.
\<close>

theorem read_closed_is_noop:
  "(channel_read_channel ch out = (Inr read_closed, ch', out') \<or>
    channel_read ch out = Some (Inr read_closed, ch', out') \<or>
    channel_read_for ch out = (Inr read_closed, ch', out') \<or>
    channel_read_until ch out = (Inr read_closed, ch', out') \<longrightarrow>
      ch' = ch \<and> out' = out \<and> c_state ch = closed \<and>
      channel_read ch' out' = Some (Inr read_closed, ch', out') \<and>
      channel_read_for ch' out' = (Inr read_closed, ch', out') \<and>
      channel_read_until ch' out' = (Inr read_closed, ch', out')) \<and>
   (buffered_channel_read_channel b out = (Inr read_closed, b', out') \<or>
    buffered_channel_read b out = Some (Inr read_closed, b', out') \<or>
    buffered_channel_read_for b out = (Inr read_closed, b', out') \<or>
    buffered_channel_read_until b out = (Inr read_closed, b', out') \<longrightarrow>
      b' = b \<and> out' = out \<and> b_count b = 0 \<and> \<not> b_open b \<and>
      buffered_channel_read b' out' = Some (Inr read_closed, b', out') \<and>
      buffered_channel_read_for b' out' = (Inr read_closed, b', out') \<and>
      buffered_channel_read_until b' out' = (Inr read_closed, b', out'))"
  by (auto simp: channel_defs buffered_channel_defs split: channel_state.splits if_splits)

theorem read_closed_is_noop_witness:
  "channel_read \<lparr>c_value = 3::nat, c_state = closed\<rparr> 1 =
     Some (Inr read_closed, \<lparr>c_value = 3, c_state = closed\<rparr>, 1) \<and>
   buffered_channel_read
     \<lparr>b_values = [4::nat, 5], b_read_position = 1, b_write_position = 1,
      b_count = 0, b_open = False\<rparr> 1 =
     Some (Inr read_closed,
       \<lparr>b_values = [4, 5], b_read_position = 1, b_write_position = 1,
        b_count = 0, b_open = False\<rparr>, 1)"
proof -
  have c: "channel_read \<lparr>c_value = 3::nat, c_state = closed\<rparr> 1 =
     Some (Inr read_closed, \<lparr>c_value = 3, c_state = closed\<rparr>, 1)"
    by (simp add: channel_defs)
  have b: "buffered_channel_read
     \<lparr>b_values = [4::nat, 5], b_read_position = 1, b_write_position = 1,
      b_count = 0, b_open = False\<rparr> 1 =
     Some (Inr read_closed,
       \<lparr>b_values = [4, 5], b_read_position = 1, b_write_position = 1,
        b_count = 0, b_open = False\<rparr>, 1)"
    by (simp add: buffered_channel_defs)
  show ?thesis
    using c b read_closed_is_noop [of "\<lparr>c_value = 3::nat, c_state = closed\<rparr>" 1
      "\<lparr>c_value = 3::nat, c_state = closed\<rparr>" 1
      "\<lparr>b_values = [4::nat, 5], b_read_position = 1, b_write_position = 1,
        b_count = 0, b_open = False\<rparr>"
      "\<lparr>b_values = [4::nat, 5], b_read_position = 1, b_write_position = 1,
        b_count = 0, b_open = False\<rparr>"]
    by simp
qed

section \<open>The buffered channel: invariant and pending values\<close>

lemma unat_succ:
  fixes c :: size_t
  assumes "unat c < n" and "n < 2 ^ 64"
  shows "unat (c + 1) = unat c + 1"
proof -
  have "unat c + unat (1::size_t) < 2 ^ LENGTH(64)" using assms by simp
  then have "unat (c + 1) = unat c + unat (1::size_t)" by (simp only: unat_add_lem)
  then show ?thesis by simp
qed

lemma unat_word_of_nat_size:
  "n < 2 ^ 64 \<Longrightarrow> unat (word_of_nat n :: size_t) = n"
  by (simp add: unat_of_nat)

lemma unat_values_size: "invar n b \<Longrightarrow> unat (values_size b) = n"
  by (simp add: invar_def values_size_def unat_word_of_nat_size)

lemma unat_advance:
  fixes p :: size_t
  assumes "unat p < n" and "n < 2 ^ 64"
  shows "unat ((p + 1) mod word_of_nat n) = (unat p + 1) mod n"
  using assms by (simp add: unat_mod unat_succ [OF assms] unat_word_of_nat_size)

lemma mod_add_less_neq:
  fixes a :: nat
  assumes "i < j" and "j < n"
  shows "(a + i) mod n \<noteq> (a + j) mod n"
proof
  assume "(a + i) mod n = (a + j) mod n"
  then have "(a + j) mod n = (a + i) mod n" by simp
  moreover have "a + i \<le> a + j" using assms by simp
  ultimately have "n dvd (a + j) - (a + i)" by (simp only: mod_eq_dvd_iff_nat)
  then have "n dvd j - i" by simp
  moreover have "0 < j - i" "j - i < n" using assms by simp_all
  ultimately show False using nat_dvd_not_less by blast
qed

lemma write_channel_invar:
  assumes inv: "invar n b" and op: "b_open b" and room: "unat (b_count b) < n"
  shows "\<exists>b'. buffered_channel_write_channel b v = (Inr write_success, b') \<and>
           invar n b' \<and> b_open b' \<and>
           unat (b_count b') = unat (b_count b) + 1 \<and>
           pending b' = pending b @ [v]"
proof -
  define b' where "b' = b\<lparr>b_values := (b_values b)[unat (b_write_position b) := v],
           b_count := b_count b + 1,
           b_write_position := (b_write_position b + 1) mod values_size b\<rparr>"
  from inv have n: "length (b_values b) = n" "0 < n" "n < 2 ^ 64"
    and rp: "unat (b_read_position b) < n" and wp: "unat (b_write_position b) < n"
    and wpeq: "unat (b_write_position b) = (unat (b_read_position b) + unat (b_count b)) mod n"
    by (simp_all add: invar_def)
  have cnt: "unat (b_count b') = unat (b_count b) + 1"
    using unat_succ [OF room n(3)] by (simp add: b'_def)
  have wp': "unat (b_write_position b') = (unat (b_write_position b) + 1) mod n"
    using unat_advance [OF wp n(3)] n(1) by (simp add: b'_def values_size_def)
  have "(unat (b_write_position b) + 1) mod n = (unat (b_read_position b) + (unat (b_count b) + 1)) mod n"
    by (simp add: wpeq mod_Suc_eq)
  with wp' cnt have wpeq': "unat (b_write_position b') =
      (unat (b_read_position b') + unat (b_count b')) mod n"
    by (simp add: b'_def)
  have inv': "invar n b'"
    using n rp room cnt wp' wpeq' by (simp add: invar_def b'_def)
  have old: "(b_values b)[unat (b_write_position b) := v] ! ((unat (b_read_position b) + i) mod n)
      = b_values b ! ((unat (b_read_position b) + i) mod n)" if "i < unat (b_count b)" for i
    using mod_add_less_neq [OF that room, of "unat (b_read_position b)"] wpeq by simp
  have new: "(b_values b)[unat (b_write_position b) := v] ! ((unat (b_read_position b) + unat (b_count b)) mod n) = v"
    using wp wpeq n(1) by simp
  have "pending b' = pending b @ [v]"
    using old new n(1) by (simp add: pending_def cnt) (simp add: b'_def)
  with inv' cnt op show ?thesis
    by (simp add: buffered_channel_write_channel_def b'_def)
qed

lemma read_channel_invar:
  assumes inv: "invar n b" and ne: "b_count b \<noteq> 0"
  shows "\<exists>b' x. buffered_channel_read_channel b out = (Inr read_success, b', x) \<and>
           invar n b' \<and> b_open b' = b_open b \<and>
           unat (b_count b') = unat (b_count b) - 1 \<and>
           pending b = x # pending b'"
proof -
  define b' where "b' = b\<lparr>b_read_position := (b_read_position b + 1) mod values_size b,
           b_count := b_count b - 1\<rparr>"
  define x where "x = b_values b ! unat (b_read_position b)"
  from inv have n: "length (b_values b) = n" "0 < n" "n < 2 ^ 64"
    and rp: "unat (b_read_position b) < n" and wp: "unat (b_write_position b) < n"
    and le: "unat (b_count b) \<le> n"
    and wpeq: "unat (b_write_position b) = (unat (b_read_position b) + unat (b_count b)) mod n"
    by (simp_all add: invar_def)
  from ne have pos: "0 < unat (b_count b)" by (simp add: unat_gt_0)
  have cnt: "unat (b_count b') = unat (b_count b) - 1"
    using ne by (simp add: b'_def unat_minus_one)
  have rp': "unat (b_read_position b') = (unat (b_read_position b) + 1) mod n"
    using unat_advance [OF rp n(3)] n(1) by (simp add: b'_def values_size_def)
  have "(unat (b_read_position b') + unat (b_count b')) mod n =
        (unat (b_read_position b) + 1 + (unat (b_count b) - 1)) mod n"
    by (simp only: rp' cnt mod_add_left_eq)
  with pos wpeq have wpeq': "unat (b_write_position b') =
      (unat (b_read_position b') + unat (b_count b')) mod n"
    by (simp add: b'_def)
  have inv': "invar n b'"
    using n wp le cnt rp' wpeq' by (simp add: invar_def b'_def)
  have shift: "(unat (b_read_position b') + i) mod n = (unat (b_read_position b) + Suc i) mod n" for i
    by (simp add: rp' mod_Suc_eq mod_add_left_eq)
  have "[0..<unat (b_count b)] = 0 # map Suc [0..<unat (b_count b) - 1]"
    using pos by (simp add: upt_conv_Cons map_Suc_upt del: upt_Suc)
  then have "pending b = x # map (\<lambda>i. b_values b ! ((unat (b_read_position b) + Suc i) mod n))
       [0..<unat (b_count b) - 1]"
    using rp n(1) by (simp add: pending_def x_def comp_def)
  moreover have "b_values b' = b_values b" by (simp add: b'_def)
  then have "pending b' = map (\<lambda>i. b_values b ! ((unat (b_read_position b') + i) mod n))
       [0..<unat (b_count b')]"
    using n(1) by (simp add: pending_def)
  then have "pending b' = map (\<lambda>i. b_values b ! ((unat (b_read_position b) + Suc i) mod n))
       [0..<unat (b_count b) - 1]"
    by (simp only: shift cnt)
  ultimately have "pending b = x # pending b'" by simp
  with inv' cnt ne show ?thesis
    by (simp add: buffered_channel_read_channel_def b'_def x_def)
qed

lemma read_channel_step:
  assumes inv: "invar n b" and rd: "is_readable b"
    and res: "buffered_channel_read_channel b out = (r, b', out')"
  shows "invar n b' \<and> b_open b' = b_open b \<and> unat (b_count b') \<le> unat (b_count b) \<and>
         (r = Inr read_success \<or> r = Inr read_closed) \<and>
         pending b = (if r = Inr read_success then [out'] else []) @ pending b'"
proof (cases "b_count b = 0")
  case True
  with rd have "\<not> b_open b" by (simp add: is_readable_def)
  with True res inv show ?thesis by (auto simp: buffered_channel_read_channel_def)
next
  case False
  from read_channel_invar [OF inv False, of out] res show ?thesis by auto
qed

lemma write_channel_step:
  assumes inv: "invar n b" and wr: "is_writable b"
    and res: "buffered_channel_write_channel b v = (r, b')"
  shows "invar n b' \<and> b_open b' = b_open b \<and>
         (r = Inr write_success \<or> r = Inl illegal_write) \<and>
         pending b' = pending b @ (if r = Inr write_success then [v] else [])"
proof (cases "b_open b")
  case True
  with wr have "b_count b < values_size b" by (simp add: is_writable_def)
  then have "unat (b_count b) < n"
    using unat_values_size [OF inv] by (simp add: word_less_nat_alt)
  from write_channel_invar [OF inv True this, of v] res True show ?thesis by auto
next
  case False
  with res inv show ?thesis by (auto simp: buffered_channel_write_channel_def)
qed

lemma buffered_channel_call_step:
  assumes inv: "invar n b" and call: "buffered_channel_call c (b, out) = Some (oc, b', out')"
  shows "invar n b' \<and> (b_open b' \<longrightarrow> b_open b) \<and> (b_open b \<and> \<not> b_open b' \<longrightarrow> c = call_close) \<and>
         pending b @ written_of (c, oc, out') = delivered_of (c, oc, out') @ pending b'"
proof (cases c)
  case call_read
  with call obtain r where "is_readable b" "buffered_channel_read_channel b out = (r, b', out')"
    "oc = read_outcome r"
    by (auto simp: buffered_public_defs split: if_splits prod.splits)
  with read_channel_step [OF inv this(1,2)] call_read show ?thesis
    by (auto simp: read_outcome_def)
next
  case call_read_for
  show ?thesis
  proof (cases "is_readable b")
    case True
    with call call_read_for obtain r where "buffered_channel_read_channel b out = (r, b', out')"
      "oc = read_outcome r"
      by (auto simp: buffered_public_defs split: if_splits prod.splits)
    with read_channel_step [OF inv True this(1)] call_read_for show ?thesis
      by (auto simp: read_outcome_def)
  next
    case False
    with call call_read_for inv show ?thesis
      by (auto simp: buffered_public_defs read_outcome_def)
  qed
next
  case call_read_until
  show ?thesis
  proof (cases "is_readable b")
    case True
    with call call_read_until obtain r where "buffered_channel_read_channel b out = (r, b', out')"
      "oc = read_outcome r"
      by (auto simp: buffered_public_defs split: if_splits prod.splits)
    with read_channel_step [OF inv True this(1)] call_read_until show ?thesis
      by (auto simp: read_outcome_def)
  next
    case False
    with call call_read_until inv show ?thesis
      by (auto simp: buffered_public_defs read_outcome_def)
  qed
next
  case (call_write v)
  with call obtain r where "is_writable b" "buffered_channel_write_channel b v = (r, b')"
    "oc = write_outcome r" "out' = out"
    by (auto simp: buffered_public_defs split: if_splits prod.splits)
  with write_channel_step [OF inv this(1,2)] call_write show ?thesis
    by (auto simp: write_outcome_def)
next
  case (call_write_for v)
  show ?thesis
  proof (cases "is_writable b")
    case True
    with call call_write_for obtain r where "buffered_channel_write_channel b v = (r, b')"
      "oc = write_outcome r" "out' = out"
      by (auto simp: buffered_public_defs split: if_splits prod.splits)
    with write_channel_step [OF inv True this(1)] call_write_for show ?thesis
      by (auto simp: write_outcome_def)
  next
    case False
    with call call_write_for inv show ?thesis
      by (auto simp: buffered_public_defs write_outcome_def)
  qed
next
  case (call_write_until v)
  show ?thesis
  proof (cases "is_writable b")
    case True
    with call call_write_until obtain r where "buffered_channel_write_channel b v = (r, b')"
      "oc = write_outcome r" "out' = out"
      by (auto simp: buffered_public_defs split: if_splits prod.splits)
    with write_channel_step [OF inv True this(1)] call_write_until show ?thesis
      by (auto simp: write_outcome_def)
  next
    case False
    with call call_write_until inv show ?thesis
      by (auto simp: buffered_public_defs write_outcome_def)
  qed
next
  case call_close
  with call inv show ?thesis
    by (auto simp: buffered_channel_close_def invar_def pending_def)
qed

lemma run_buffered_channel_invar:
  assumes "invar n b" and "run buffered_channel_call cs (b, out) = Some (es, b', out')"
  shows "invar n b' \<and> (b_open b' \<longrightarrow> b_open b) \<and>
         pending b @ written es = delivered es @ pending b'"
  using assms
proof (induction cs arbitrary: b out es)
  case Nil
  then show ?case by (simp add: written_def delivered_def)
next
  case (Cons c cs)
  from Cons.prems(2) obtain oc b1 out1 es1 where
    step: "buffered_channel_call c (b, out) = Some (oc, b1, out1)"
    and rest: "run buffered_channel_call cs (b1, out1) = Some (es1, b', out')"
    and es: "es = (c, oc, out1) # es1"
    by (auto split: option.splits)
  note s = buffered_channel_call_step [OF Cons.prems(1) step]
  from s have inv1: "invar n b1" by simp
  note r = Cons.IH [OF inv1 rest]
  have "pending b @ written es = (pending b @ written_of (c, oc, out1)) @ written es1"
    by (simp add: es written_def)
  also have "\<dots> = delivered_of (c, oc, out1) @ (pending b1 @ written es1)"
    using s by simp
  also have "\<dots> = delivered es @ pending b'"
    using r by (simp add: es delivered_def)
  finally show ?case using s r by simp
qed

lemma buffered_channel_new_invar:
  assumes "buffered_channel_new mx al k d = Inr b"
  shows "invar (unat k) b \<and> b_open b \<and> b_count b = 0 \<and> pending b = []"
proof -
  from assms have k: "k \<noteq> 0"
    and b: "b = \<lparr>b_values = replicate (unat k) d, b_read_position = 0,
               b_write_position = 0, b_count = 0, b_open = True\<rparr>"
    by (auto simp: buffered_channel_new_def vector_resize_def split: if_splits)
  have "0 < unat k" using k by (simp add: unat_gt_0)
  moreover have "unat k < 2 ^ 64" using unsigned_less [of k, where ?'a = nat] by simp
  ultimately show ?thesis by (simp add: b invar_def pending_def)
qed

lemma values_size_invar: "invar (unat k) b \<Longrightarrow> values_size b = k"
  by (simp add: invar_def values_size_def)

lemma buffered_channel_call_drained:
  assumes "\<not> b_open b" and "b_count b = 0"
  shows "buffered_channel_call c (b, out) =
     Some (if is_read c then read_returned read_closed
           else if is_write c then threw illegal_write else close_returned, b, out)"
  using assms
  by (cases c) (simp_all add: buffered_channel_defs read_outcome_def write_outcome_def)

lemma run_buffered_channel_drained:
  assumes "\<not> b_open b" and "b_count b = 0"
  shows "\<exists>es. run buffered_channel_call cs (b, out) = Some (es, b, out) \<and>
        (\<forall>(c, oc, v) \<in> set es. is_read c \<longrightarrow> oc = read_returned read_closed)"
proof (induction cs)
  case Nil
  then show ?case by simp
next
  case (Cons c cs)
  then obtain es where es: "run buffered_channel_call cs (b, out) = Some (es, b, out)"
    "\<forall>(c, oc, v) \<in> set es. is_read c \<longrightarrow> oc = read_returned read_closed" by blast
  show ?case using es buffered_channel_call_drained [OF assms, of c out]
    by simp
qed

lemma run_writes:
  assumes "invar n b" and "b_open b" and "unat (b_count b) + length vs \<le> n"
  shows "\<exists>es b'. run buffered_channel_call (map call_write vs) (b, out) = Some (es, b', out) \<and>
           invar n b' \<and> b_open b' \<and> pending b' = pending b @ vs \<and>
           unat (b_count b') = unat (b_count b) + length vs"
  using assms
proof (induction vs arbitrary: b)
  case Nil
  then show ?case by simp
next
  case (Cons v vs)
  from Cons.prems have room: "unat (b_count b) < n" by simp
  from write_channel_invar [OF Cons.prems(1,2) room, of v] obtain b1 where
    w: "buffered_channel_write_channel b v = (Inr write_success, b1)"
    and b1: "invar n b1" "b_open b1" "unat (b_count b1) = unat (b_count b) + 1"
      "pending b1 = pending b @ [v]"
    by blast
  have "b_count b < values_size b"
    using room unat_values_size [OF Cons.prems(1)] by (simp add: word_less_nat_alt)
  with w have step: "buffered_channel_call (call_write v) (b, out) =
      Some (write_returned write_success, b1, out)"
    by (simp add: buffered_public_defs is_writable_def write_outcome_def)
  from Cons.prems b1 have "unat (b_count b1) + length vs \<le> n" by simp
  from Cons.IH [OF b1(1,2) this] obtain es b' where
    "run buffered_channel_call (map call_write vs) (b1, out) = Some (es, b', out)"
    "invar n b'" "b_open b'" "pending b' = pending b1 @ vs"
    "unat (b_count b') = unat (b_count b1) + length vs"
    by blast
  with step b1 show ?case by simp
qed

lemma run_append:
  "run step (xs @ ys) s =
     (case run step xs s of
        None \<Rightarrow> None
      | Some (es, s') \<Rightarrow>
          (case run step ys s' of
             None \<Rightarrow> None
           | Some (es', s'') \<Rightarrow> Some (es @ es', s'')))"
  by (induction xs arbitrary: s) (auto split: option.splits)

lemma run_writes_delivered:
  "run step (map call_write vs) s = Some (es, s') \<Longrightarrow> delivered es = []"
  by (induction vs arbitrary: s es) (auto simp: delivered_def split: option.splits)

lemma run_reads_written:
  "run step (replicate m call_read) s = Some (es, s') \<Longrightarrow> written es = []"
  by (induction m arbitrary: s es) (auto simp: written_def split: option.splits)

lemma read_enabled:
  assumes inv: "invar n b" and ne: "b_count b \<noteq> 0"
  shows "\<exists>b' x. buffered_channel_read b out = Some (Inr read_success, b', x) \<and>
           buffered_channel_read_for b out = (Inr read_success, b', x) \<and>
           buffered_channel_read_until b out = (Inr read_success, b', x) \<and>
           invar n b' \<and> b_open b' = b_open b \<and>
           unat (b_count b') = unat (b_count b) - 1 \<and>
           pending b = x # pending b'"
proof -
  have "is_readable b" using ne by (simp add: is_readable_def word_neq_0_conv)
  with read_channel_invar [OF inv ne, of out] show ?thesis
    by (auto simp: buffered_public_defs)
qed

lemma write_enabled:
  assumes inv: "invar n b" and op: "b_open b" and room: "unat (b_count b) < n"
  shows "\<exists>b'. buffered_channel_write b v = Some (Inr write_success, b') \<and>
           buffered_channel_write_for b v = (Inr write_success, b') \<and>
           buffered_channel_write_until b v = (Inr write_success, b') \<and>
           invar n b' \<and> b_open b' \<and>
           unat (b_count b') = unat (b_count b) + 1 \<and>
           pending b' = pending b @ [v]"
proof -
  have "b_count b < values_size b"
    using room unat_values_size [OF inv] by (simp add: word_less_nat_alt)
  then have "is_writable b" by (simp add: is_writable_def)
  with write_channel_invar [OF inv op room, of v] show ?thesis
    by (auto simp: buffered_public_defs)
qed

lemma run_reads:
  assumes "invar n b" and "unat (b_count b) = m"
  shows "\<exists>es b' out'. run buffered_channel_call (replicate m call_read) (b, out) =
             Some (es, b', out') \<and> invar n b' \<and> b_count b' = 0 \<and> b_open b' = b_open b"
  using assms
proof (induction m arbitrary: b out)
  case 0
  then show ?case by (simp add: unat_eq_0)
next
  case (Suc m)
  from Suc.prems(2) have ne: "b_count b \<noteq> 0" by auto
  from read_enabled [OF Suc.prems(1) ne, of out] obtain b1 x where
    r: "buffered_channel_read b out = Some (Inr read_success, b1, x)"
    and b1: "invar n b1" "b_open b1 = b_open b" "unat (b_count b1) = unat (b_count b) - 1"
    by blast
  from b1(3) Suc.prems(2) have "unat (b_count b1) = m" by simp
  from Suc.IH [OF b1(1) this, of x] obtain es b' out' where
    "run buffered_channel_call (replicate m call_read) (b1, x) = Some (es, b', out')"
    "invar n b'" "b_count b' = 0" "b_open b' = b_open b1"
    by blast
  with r b1 show ?case by (simp add: read_outcome_def)
qed

lemma write_then_read_all:
  assumes inv: "invar n b" and op: "b_open b" and empty: "b_count b = 0"
    and len: "length vs \<le> n"
  shows "\<exists>es b' out'.
           run buffered_channel_call (map call_write vs @ replicate (length vs) call_read) (b, out) =
             Some (es, b', out') \<and>
           written es = vs \<and> delivered es = vs \<and> pending b' = [] \<and> b_open b'"
proof -
  from empty have p0: "pending b = []" by (simp add: pending_def)
  from len empty have "unat (b_count b) + length vs \<le> n" by simp
  from run_writes [OF inv op this, of out] p0 empty obtain es1 b1 where
    w: "run buffered_channel_call (map call_write vs) (b, out) = Some (es1, b1, out)"
    and b1: "invar n b1" "b_open b1" "pending b1 = vs" "unat (b_count b1) = length vs"
    by auto
  from run_reads [OF b1(1,4), of out] obtain es2 b2 out2 where
    r: "run buffered_channel_call (replicate (length vs) call_read) (b1, out) = Some (es2, b2, out2)"
    and b2: "invar n b2" "b_count b2 = 0" "b_open b2 = b_open b1"
    by blast
  from b2(2) have p2: "pending b2 = []" by (simp add: pending_def)
  from run_buffered_channel_invar [OF inv w] p0 b1(3) run_writes_delivered [OF w]
  have w1: "written es1 = vs" "delivered es1 = []" by simp_all
  from run_buffered_channel_invar [OF b1(1) r] p2 b1(3) run_reads_written [OF r]
  have r2: "delivered es2 = vs" "written es2 = []" by simp_all
  have "run buffered_channel_call (map call_write vs @ replicate (length vs) call_read) (b, out) =
      Some (es1 @ es2, b2, out2)"
    by (simp add: run_append w r)
  moreover have "written (es1 @ es2) = vs" "delivered (es1 @ es2) = vs"
    using w1 r2 by (simp_all add: written_def delivered_def)
  ultimately show ?thesis using p2 b2(3) b1(2) by blast
qed

lemma buffered_channel_new_2:
  "buffered_channel_new 1000 True 2 (0::nat) =
     Inr \<lparr>b_values = [0, 0], b_read_position = 0, b_write_position = 0,
          b_count = 0, b_open = True\<rparr>"
proof -
  have "replicate 2 (0::nat) = [0, 0]" by (simp add: numeral_2_eq_2)
  then show ?thesis by (simp add: buffered_channel_new_def vector_resize_def)
qed

section \<open>The buffered channel: construction, bounds and order\<close>

text \<open>
  Claim C8, as the code has it. Constructing a buffered channel with capacity 0
  throws \<open>invalid_size\<close> and yields no channel. Constructing it with a capacity of at
  least 1 that does not exceed \<open>max_size()\<close> of the vector, when the allocator serves
  the request, yields a channel that is open, has count 0 and both cursors 0, and
  whose vector has exactly that many elements. A capacity beyond \<open>max_size()\<close> makes
  the constructor throw \<open>std::length_error\<close>, and a request the allocator refuses
  makes it throw \<open>std::bad_alloc\<close>; neither yields a channel.
\<close>

theorem buffered_channel_new_sizes:
  "buffered_channel_new mx al 0 d = Inl (channel_exception invalid_size) \<and>
   (1 \<le> n \<and> n \<le> mx \<and> al \<longrightarrow>
      (\<exists>b. buffered_channel_new mx al n d = Inr b \<and> b_open b \<and> b_count b = 0 \<and>
           b_read_position b = 0 \<and> b_write_position b = 0 \<and>
           length (b_values b) = unat n \<and> values_size b = n)) \<and>
   (1 \<le> n \<and> mx < n \<longrightarrow> buffered_channel_new mx al n d = Inl length_error) \<and>
   (1 \<le> n \<and> n \<le> mx \<and> \<not> al \<longrightarrow> buffered_channel_new mx al n d = Inl bad_alloc)"
  by (auto simp: buffered_channel_new_def vector_resize_def values_size_def)

theorem buffered_channel_new_sizes_witness:
  "(1::size_t) \<le> 3 \<and> (3::size_t) \<le> 9223372036854775807 \<and>
   buffered_channel_new 9223372036854775807 True 3 (0::nat) =
     Inr \<lparr>b_values = [0, 0, 0], b_read_position = 0, b_write_position = 0,
          b_count = 0, b_open = True\<rparr>"
proof -
  have u: "replicate 3 (0::nat) = [0, 0, 0]" by (simp add: numeral_3_eq_3)
  show ?thesis
    using buffered_channel_new_sizes [of 9223372036854775807 True "0::nat" 3]
    by (simp add: buffered_channel_new_def vector_resize_def u)
qed

text \<open>
  Not every capacity of at least 1 can be constructed: no vector has a \<open>max_size()\<close>
  above \<open>PTRDIFF_MAX\<close>, and with that bound the capacity \<open>SIZE_MAX\<close> is refused with
  \<open>std::length_error\<close> even when memory is there.
\<close>

theorem buffered_channel_new_sizes_counterexample:
  "(1::size_t) \<le> 18446744073709551615 \<and>
   buffered_channel_new 9223372036854775807 True 18446744073709551615 (0::nat) =
     Inl length_error"
  by (simp add: buffered_channel_new_def vector_resize_def)

text \<open>
  Claim C5. Take a buffered channel constructed with capacity \<open>k\<close> and any sequence
  of calls (reads, writes, close, timed or not) that have come back. Then the count is
  between 0 and \<open>k\<close>, and it still is after any further call. No call turns the open
  flag from false to true, only \<open>close\<close> turns it from true to false, and \<open>close\<close>
  leaves it false. Once the channel is closed with count 0, every further sequence of
  calls comes back leaving the channel (so its count, 0) unchanged, and every read in
  it returns \<open>closed\<close>.
\<close>

theorem buffered_invariants:
  assumes "buffered_channel_new mx al k d = Inr b0"
    and "run buffered_channel_call cs (b0, out0) = Some (es, b, out)"
  shows "0 \<le> b_count b \<and> b_count b \<le> k \<and> length (b_values b) = unat k \<and>
    (\<forall>c oc b' out'. buffered_channel_call c (b, out) = Some (oc, b', out') \<longrightarrow>
       (b_open b' \<longrightarrow> b_open b) \<and> (b_open b \<and> \<not> b_open b' \<longrightarrow> c = call_close) \<and>
       b_count b' \<le> k) \<and>
    \<not> b_open (buffered_channel_close b) \<and>
    (\<not> b_open b \<and> b_count b = 0 \<longrightarrow>
       (\<forall>cs'. \<exists>es'. run buffered_channel_call cs' (b, out) = Some (es', b, out) \<and>
          (\<forall>(c, oc, x) \<in> set es'. is_read c \<longrightarrow> oc = read_returned read_closed)))"
proof -
  from buffered_channel_new_invar [OF assms(1)] have inv0: "invar (unat k) b0" by simp
  from run_buffered_channel_invar [OF inv0 assms(2)] have inv: "invar (unat k) b" by simp
  then have le: "b_count b \<le> k" and len: "length (b_values b) = unat k"
    by (simp_all add: invar_def word_le_nat_alt)
  have step: "(b_open b' \<longrightarrow> b_open b) \<and> (b_open b \<and> \<not> b_open b' \<longrightarrow> c = call_close) \<and>
       b_count b' \<le> k"
    if "buffered_channel_call c (b, out) = Some (oc, b', out')" for c oc b' out'
    using buffered_channel_call_step [OF inv that] by (simp add: invar_def word_le_nat_alt)
  have drained: "\<exists>es'. run buffered_channel_call cs' (b, out) = Some (es', b, out) \<and>
          (\<forall>(c, oc, x) \<in> set es'. is_read c \<longrightarrow> oc = read_returned read_closed)"
    if "\<not> b_open b" "b_count b = 0" for cs'
    using run_buffered_channel_drained [OF that] .
  show ?thesis using le len step drained
    by (simp add: buffered_channel_close_def)
qed

theorem buffered_invariants_witness:
  "buffered_channel_new 1000 True 2 (0::nat) =
     Inr \<lparr>b_values = [0, 0], b_read_position = 0, b_write_position = 0,
          b_count = 0, b_open = True\<rparr> \<and>
   run buffered_channel_call [call_write 1, call_close, call_read, call_read_for]
     (\<lparr>b_values = [0::nat, 0], b_read_position = 0, b_write_position = 0,
       b_count = 0, b_open = True\<rparr>, 0) =
     Some ([(call_write 1, write_returned write_success, 0),
            (call_close, close_returned, 0),
            (call_read, read_returned read_success, 1),
            (call_read_for, read_returned read_closed, 1)],
           \<lparr>b_values = [1, 0], b_read_position = 1, b_write_position = 1,
            b_count = 0, b_open = False\<rparr>, 1) \<and>
   (\<exists>es'. run buffered_channel_call [call_read]
       (\<lparr>b_values = [1::nat, 0], b_read_position = 1, b_write_position = 1,
            b_count = 0, b_open = False\<rparr>, 1) =
       Some (es', \<lparr>b_values = [1::nat, 0], b_read_position = 1, b_write_position = 1,
            b_count = 0, b_open = False\<rparr>, 1))"
proof -
  note new = buffered_channel_new_2
  have run: "run buffered_channel_call [call_write 1, call_close, call_read, call_read_for]
     (\<lparr>b_values = [0::nat, 0], b_read_position = 0, b_write_position = 0,
       b_count = 0, b_open = True\<rparr>, 0) =
     Some ([(call_write 1, write_returned write_success, 0),
            (call_close, close_returned, 0),
            (call_read, read_returned read_success, 1),
            (call_read_for, read_returned read_closed, 1)],
           \<lparr>b_values = [1, 0], b_read_position = 1, b_write_position = 1,
            b_count = 0, b_open = False\<rparr>, 1)"
    by (simp add: buffered_channel_defs values_size_def read_outcome_def write_outcome_def)
  note t = buffered_invariants [OF new run]
  from t [THEN conjunct2, THEN conjunct2, THEN conjunct2, THEN conjunct2, THEN conjunct2]
  have "\<exists>es'. run buffered_channel_call [call_read]
       (\<lparr>b_values = [1::nat, 0], b_read_position = 1, b_write_position = 1,
            b_count = 0, b_open = False\<rparr>, 1) =
       Some (es', \<lparr>b_values = [1::nat, 0], b_read_position = 1, b_write_position = 1,
            b_count = 0, b_open = False\<rparr>, 1)"
    by (simp del: run.simps) blast
  with new run show ?thesis by (simp del: run.simps)
qed

text \<open>
  Claim C2. Take a buffered channel constructed with capacity \<open>k\<close> and any sequence
  of calls that have come back. The values written so far are the values delivered so
  far followed by the pending ones, in this order: the values delivered are an
  initial segment of the values written, so reads deliver in the order of writing. While the channel is open, a count below \<open>k\<close> makes \<open>is_writable\<close> true
  and a write goes through, appending its value to the pending ones; with count \<open>k\<close>
  \<open>is_writable\<close> is false and a write blocks, and one read makes the channel writable
  again. A successful read returns the oldest pending value. In particular \<open>k\<close>
  writes on the new channel all go through, and the write after them blocks.
  Whenever the count is not 0, a read (\<open>read\<close>, \<open>read_for\<close> or \<open>read_until\<close>) comes
  back with \<open>success\<close> and the oldest pending value; on an open channel with count 0
  \<open>read\<close> blocks and the timed reads time out. The timed writes go through like
  \<open>write\<close> while there is room. Writing up to \<open>k\<close> values to the new channel and then
  reading as many times runs to the end and delivers exactly the values written, in
  the order written.
\<close>

theorem buffered_fifo_capacity:
  assumes "buffered_channel_new mx al k d = Inr b0"
    and "run buffered_channel_call cs (b0, out0) = Some (es, b, out)"
  shows "written es = delivered es @ pending b \<and>
    delivered es = take (length (delivered es)) (written es) \<and>
    (b_open b \<and> b_count b < k \<longrightarrow>
       is_writable b \<and>
       (\<exists>b'. buffered_channel_write b v = Some (Inr write_success, b') \<and>
             pending b' = pending b @ [v])) \<and>
    (b_open b \<and> b_count b = k \<longrightarrow>
       \<not> is_writable b \<and> buffered_channel_write b v = None \<and>
       (\<exists>b' x. buffered_channel_read b out = Some (Inr read_success, b', x) \<and>
               b_open b' \<and> is_writable b')) \<and>
    (\<forall>b' x. buffered_channel_read b out = Some (Inr read_success, b', x) \<longrightarrow>
       pending b = x # pending b') \<and>
    (\<forall>vs. length vs = unat k \<longrightarrow>
       (\<exists>es1 b1. run buffered_channel_call (map call_write vs) (b0, out0) = Some (es1, b1, out0) \<and>
          pending b1 = vs \<and> b_open b1 \<and> \<not> is_writable b1 \<and>
          buffered_channel_write b1 v = None)) \<and>
    (b_count b \<noteq> 0 \<longrightarrow>
       (\<exists>b' x. buffered_channel_read b out = Some (Inr read_success, b', x) \<and>
               buffered_channel_read_for b out = (Inr read_success, b', x) \<and>
               buffered_channel_read_until b out = (Inr read_success, b', x) \<and>
               pending b = x # pending b')) \<and>
    (b_open b \<and> b_count b = 0 \<longrightarrow>
       buffered_channel_read b out = None \<and>
       buffered_channel_read_for b out = (Inr read_timeout, b, out) \<and>
       buffered_channel_read_until b out = (Inr read_timeout, b, out)) \<and>
    (b_open b \<and> b_count b < k \<longrightarrow>
       (\<exists>b'. buffered_channel_write_for b v = (Inr write_success, b') \<and>
             buffered_channel_write_until b v = (Inr write_success, b') \<and>
             pending b' = pending b @ [v])) \<and>
    (\<forall>vs. length vs \<le> unat k \<longrightarrow>
       (\<exists>es2 b2 out2.
          run buffered_channel_call (map call_write vs @ replicate (length vs) call_read)
            (b0, out0) = Some (es2, b2, out2) \<and>
          written es2 = vs \<and> delivered es2 = vs \<and> pending b2 = []))"
proof -
  from buffered_channel_new_invar [OF assms(1)]
  have inv0: "invar (unat k) b0" and b0: "b_open b0" "b_count b0 = 0" "pending b0 = []"
    by simp_all
  from run_buffered_channel_invar [OF inv0 assms(2)] b0
  have inv: "invar (unat k) b" and fifo: "written es = delivered es @ pending b"
    by simp_all
  have vs: "values_size b = k" by (rule values_size_invar [OF inv])
  have k: "k \<noteq> 0" using assms(1) by (auto simp: buffered_channel_new_def split: if_splits)
  have room: "is_writable b \<and>
       (\<exists>b'. buffered_channel_write b v = Some (Inr write_success, b') \<and>
             pending b' = pending b @ [v])" if "b_open b" "b_count b < k"
  proof -
    from that have "unat (b_count b) < unat k" by (simp add: word_less_nat_alt)
    from write_channel_invar [OF inv that(1) this, of v] that vs show ?thesis
      by (auto simp: buffered_public_defs is_writable_def)
  qed
  have full: "\<not> is_writable b \<and> buffered_channel_write b v = None \<and>
       (\<exists>b' x. buffered_channel_read b out = Some (Inr read_success, b', x) \<and>
               b_open b' \<and> is_writable b')" if "b_open b" "b_count b = k"
  proof -
    from that k have ne: "b_count b \<noteq> 0" by simp
    from read_channel_invar [OF inv ne, of out] obtain b' x where
      r: "buffered_channel_read_channel b out = (Inr read_success, b', x)"
      and b': "invar (unat k) b'" "b_open b' = b_open b"
        "unat (b_count b') = unat (b_count b) - 1"
      by blast
    from ne have "0 < unat (b_count b)" by (simp add: unat_gt_0)
    with b'(3) that(2) have "b_count b' < k" by (simp add: word_less_nat_alt)
    with values_size_invar [OF b'(1)] have "is_writable b'" by (simp add: is_writable_def)
    moreover have "is_readable b" using ne by (simp add: is_readable_def word_neq_0_conv)
    ultimately show ?thesis using that vs r b'(2)
      by (simp add: buffered_public_defs is_writable_def)
  qed
  have oldest: "pending b = x # pending b'"
    if "buffered_channel_read b out = Some (Inr read_success, b', x)" for b' x
  proof -
    from that have rd: "is_readable b"
      and r: "buffered_channel_read_channel b out = (Inr read_success, b', x)"
      by (auto simp: buffered_public_defs split: if_splits)
    from read_channel_step [OF inv rd r] show ?thesis by simp
  qed
  have fill: "\<exists>es1 b1. run buffered_channel_call (map call_write vs) (b0, out0) = Some (es1, b1, out0) \<and>
          pending b1 = vs \<and> b_open b1 \<and> \<not> is_writable b1 \<and>
          buffered_channel_write b1 v = None" if "length vs = unat k" for vs
  proof -
    from that b0 have "unat (b_count b0) + length vs \<le> unat k" by simp
    from run_writes [OF inv0 b0(1) this, of out0] b0 that obtain es1 b1 where
      run: "run buffered_channel_call (map call_write vs) (b0, out0) = Some (es1, b1, out0)"
      and b1: "invar (unat k) b1" "b_open b1" "pending b1 = vs" "unat (b_count b1) = unat k"
      by auto
    from b1(4) have "b_count b1 = k" by (simp add: word_unat_eq_iff)
    with values_size_invar [OF b1(1)] b1(2) have "\<not> is_writable b1"
      by (simp add: is_writable_def)
    with run b1 show ?thesis by (auto simp: buffered_public_defs)
  qed
  have pre: "delivered es = take (length (delivered es)) (written es)"
    by (simp add: fifo)
  have head: "\<exists>b' x. buffered_channel_read b out = Some (Inr read_success, b', x) \<and>
               buffered_channel_read_for b out = (Inr read_success, b', x) \<and>
               buffered_channel_read_until b out = (Inr read_success, b', x) \<and>
               pending b = x # pending b'" if "b_count b \<noteq> 0"
    using read_enabled [OF inv that, of out] by blast
  have empty: "buffered_channel_read b out = None \<and>
       buffered_channel_read_for b out = (Inr read_timeout, b, out) \<and>
       buffered_channel_read_until b out = (Inr read_timeout, b, out)"
    if "b_open b" "b_count b = 0"
    using that by (simp add: buffered_public_defs is_readable_def)
  have timed: "\<exists>b'. buffered_channel_write_for b v = (Inr write_success, b') \<and>
             buffered_channel_write_until b v = (Inr write_success, b') \<and>
             pending b' = pending b @ [v]" if "b_open b" "b_count b < k"
  proof -
    from that have "unat (b_count b) < unat k" by (simp add: word_less_nat_alt)
    from write_enabled [OF inv that(1) this, of v] show ?thesis by blast
  qed
  have both: "\<exists>es2 b2 out2.
          run buffered_channel_call (map call_write vs @ replicate (length vs) call_read)
            (b0, out0) = Some (es2, b2, out2) \<and>
          written es2 = vs \<and> delivered es2 = vs \<and> pending b2 = []"
    if "length vs \<le> unat k" for vs
    using write_then_read_all [OF inv0 b0(1,2) that, of out0] by blast
  from fifo pre room full oldest fill head empty timed both show ?thesis by blast
qed

theorem buffered_fifo_capacity_witness:
  "buffered_channel_new 1000 True 2 (0::nat) =
     Inr \<lparr>b_values = [0, 0], b_read_position = 0, b_write_position = 0,
          b_count = 0, b_open = True\<rparr> \<and>
   run buffered_channel_call [call_write 1, call_write 2, call_read]
     (\<lparr>b_values = [0::nat, 0], b_read_position = 0, b_write_position = 0,
       b_count = 0, b_open = True\<rparr>, 0) =
     Some ([(call_write 1, write_returned write_success, 0),
            (call_write 2, write_returned write_success, 0),
            (call_read, read_returned read_success, 1)],
           \<lparr>b_values = [1, 2], b_read_position = 1, b_write_position = 0,
            b_count = 1, b_open = True\<rparr>, 1) \<and>
   [1, 2] = [1] @ pending \<lparr>b_values = [1::nat, 2], b_read_position = 1, b_write_position = 0,
            b_count = 1, b_open = True\<rparr> \<and>
   is_writable \<lparr>b_values = [1::nat, 2], b_read_position = 1, b_write_position = 0,
            b_count = 1, b_open = True\<rparr> \<and>
   (\<exists>b' x. buffered_channel_read
        \<lparr>b_values = [1::nat, 2], b_read_position = 1, b_write_position = 0,
         b_count = 1, b_open = True\<rparr> 1 = Some (Inr read_success, b', x) \<and>
      pending \<lparr>b_values = [1::nat, 2], b_read_position = 1, b_write_position = 0,
         b_count = 1, b_open = True\<rparr> = x # pending b')"
proof -
  note new = buffered_channel_new_2
  have run: "run buffered_channel_call [call_write 1, call_write 2, call_read]
     (\<lparr>b_values = [0::nat, 0], b_read_position = 0, b_write_position = 0,
       b_count = 0, b_open = True\<rparr>, 0) =
     Some ([(call_write 1, write_returned write_success, 0),
            (call_write 2, write_returned write_success, 0),
            (call_read, read_returned read_success, 1)],
           \<lparr>b_values = [1, 2], b_read_position = 1, b_write_position = 0,
            b_count = 1, b_open = True\<rparr>, 1)"
    by (simp add: buffered_channel_defs values_size_def read_outcome_def write_outcome_def)
  note t = buffered_fifo_capacity [OF new run, of 3]
  from t [THEN conjunct1]
  have fifo: "[1, 2] = [1] @ pending \<lparr>b_values = [1::nat, 2], b_read_position = 1,
      b_write_position = 0, b_count = 1, b_open = True\<rparr>"
    by (simp add: written_def delivered_def)
  from t [THEN conjunct2, THEN conjunct2, THEN conjunct1]
  have wr: "is_writable \<lparr>b_values = [1::nat, 2], b_read_position = 1, b_write_position = 0,
            b_count = 1, b_open = True\<rparr>"
    by simp
  from t [THEN conjunct2, THEN conjunct2, THEN conjunct2, THEN conjunct2, THEN conjunct2,
      THEN conjunct2, THEN conjunct1]
  have rd: "\<exists>b' x. buffered_channel_read
        \<lparr>b_values = [1::nat, 2], b_read_position = 1, b_write_position = 0,
         b_count = 1, b_open = True\<rparr> 1 = Some (Inr read_success, b', x) \<and>
      pending \<lparr>b_values = [1::nat, 2], b_read_position = 1, b_write_position = 0,
         b_count = 1, b_open = True\<rparr> = x # pending b'"
    by simp blast
  from new run fifo wr rd show ?thesis by (simp del: run.simps)
qed

end
